theory Spec2Isabelle
  imports Main "HOL-Library.Word"
begin

section \<open>Go values, returns and panics\<close>

text \<open>
  Bytes are 8-bit words, a \<open>[]byte\<close> is a list of them (the nil slice is the empty
  list) and a Go \<open>string\<close> is a list of characters. Go's \<open>int\<close> is modelled as
  \<open>int\<close>: every value computed below is bounded by a slice length plus 16.

  A Go function of this repository either returns its result values, among them
  possibly a non-nil \<open>error\<close>, or does not return at all because the runtime or an
  explicit \<open>panic(...)\<close> unwinds the goroutine. The two are kept apart: a panic is
  not a returned error. A function with the signature \<open>(T, error)\<close> is modelled
  with the result type \<open>(T \<times> error option) outcome\<close>, where \<open>None\<close> is the nil
  error, so that \<open>return nil, err\<close> reads \<open>Return ([], Some err)\<close>.
\<close>

type_synonym byte = "8 word"

type_synonym errno = nat

datatype panic =
    PanicMsg string
  | IndexOutOfRange int

datatype error =
    UnalignedSize
  | PaddingZeroLength
  | PaddingTooLong int
  | PaddingByteInvalid int
  | UnpaddedLengthZero
  | PathError string errno
  | InvalidLength int
  | WrongPassword
  | CorruptConfig
  | UnsupportedVersion

datatype 'a outcome = Return 'a | Panic panic

text \<open>
  \<open>xs[i]\<close> on a slice, as a read and as an assignment target: the runtime panics
  with "index out of range" unless \<open>0 \<le> i < len(xs)\<close>.
\<close>

definition go_index :: "'a list \<Rightarrow> int \<Rightarrow> 'a outcome" where
  "go_index xs i =
     (if 0 \<le> i \<and> i < int (length xs) then Return (xs ! nat i) else Panic (IndexOutOfRange i))"

definition go_store :: "'a list \<Rightarrow> int \<Rightarrow> 'a \<Rightarrow> 'a list outcome" where
  "go_store xs i v =
     (if 0 \<le> i \<and> i < int (length xs) then Return (xs[nat i := v])
      else Panic (IndexOutOfRange i))"

text \<open>The builtin \<open>copy(dst, src)\<close> overwrites the first \<open>min(len(dst), len(src))\<close> elements.\<close>

definition go_copy :: "'a list \<Rightarrow> 'a list \<Rightarrow> 'a list" where
  "go_copy dst src = take (length dst) src @ drop (length src) dst"

section \<open>PKCS#7 padding to the AES block size (\<open>pad16\<close>, \<open>unPad16\<close>)\<close>

definition aes_BlockSize :: int where
  "aes_BlockSize = 16"

text \<open>The loop \<open>for i := oldLen; i < newLen; i++ { padded[i] = padByte }\<close> of \<open>pad16\<close>.\<close>

function pad16_fill :: "byte list \<Rightarrow> int \<Rightarrow> int \<Rightarrow> byte \<Rightarrow> byte list outcome" where
  "pad16_fill padded i newLen padByte =
     (if i < newLen then
        (case go_store padded i padByte of
           Return padded' \<Rightarrow> pad16_fill padded' (i + 1) newLen padByte
         | Panic p \<Rightarrow> Panic p)
      else Return padded)"
  by pat_completeness auto
termination
  by (relation "measure (\<lambda>(padded, i, newLen, padByte). nat (newLen - i))") auto

declare pad16_fill.simps [simp del]

text \<open>
  \<open>padLen\<close> is computed as \<open>16 - oldLen % 16\<close>, which lies in \<open>1..16\<close>; the test
  \<open>padLen == 0\<close> of the source is kept although it never fires. \<open>oldLen\<close> is not
  negative, so Go's \<open>%\<close> is \<open>mod\<close>. \<open>byte(padLen)\<close> keeps the low eight bits.
\<close>

definition pad16 :: "byte list \<Rightarrow> byte list outcome" where
  "pad16 orig =
     (let oldLen = int (length orig) in
      if oldLen = 0 then Panic (PanicMsg ''Padding zero-length string makes no sense'')
      else
        let padLen = aes_BlockSize - oldLen mod aes_BlockSize;
            padLen = (if padLen = 0 then aes_BlockSize else padLen);
            newLen = oldLen + padLen;
            padded = replicate (nat newLen) (0 :: byte);
            padded = go_copy padded orig;
            padByte = (word_of_int padLen :: byte)
        in pad16_fill padded oldLen newLen padByte)"

text \<open>
  The loop \<open>for i := oldLen - padLen; i < oldLen; i++\<close> of \<open>unPad16\<close>: it leaves the
  function with an error at the first byte that differs from \<open>padByte\<close>
  (\<open>Return (Some e)\<close>) and falls through otherwise (\<open>Return None\<close>).
\<close>

function unPad16_check :: "byte list \<Rightarrow> int \<Rightarrow> int \<Rightarrow> byte \<Rightarrow> error option outcome" where
  "unPad16_check padded i oldLen padByte =
     (if i < oldLen then
        (case go_index padded i of
           Return b \<Rightarrow> (if b \<noteq> padByte then Return (Some (PaddingByteInvalid i))
                        else unPad16_check padded (i + 1) oldLen padByte)
         | Panic p \<Rightarrow> Panic p)
      else Return None)"
  by pat_completeness auto
termination
  by (relation "measure (\<lambda>(padded, i, oldLen, padByte). nat (oldLen - i))") auto

declare unPad16_check.simps [simp del]

text \<open>
  \<open>unPad16\<close> tests \<open>oldLen % 16 != 0\<close> and then reads \<open>padded[oldLen-1]\<close>; there is
  no test for \<open>oldLen == 0\<close> in between. \<open>int(padByte)\<close> is the unsigned value of the
  byte, and the final slice \<open>padded[0:newLen]\<close> has \<open>0 < newLen \<le> oldLen\<close>.
\<close>

definition unPad16 :: "byte list \<Rightarrow> (byte list \<times> error option) outcome" where
  "unPad16 padded =
     (let oldLen = int (length padded) in
      if oldLen mod aes_BlockSize \<noteq> 0 then Return ([], Some UnalignedSize)
      else
        (case go_index padded (oldLen - 1) of
           Panic p \<Rightarrow> Panic p
         | Return padByte \<Rightarrow>
             let padLen = uint padByte in
             if padLen \<le> 0 then Return ([], Some PaddingZeroLength)
             else if padLen > aes_BlockSize then Return ([], Some (PaddingTooLong padLen))
             else
               (case unPad16_check padded (oldLen - padLen) oldLen padByte of
                  Panic p \<Rightarrow> Panic p
                | Return (Some e) \<Rightarrow> Return ([], Some e)
                | Return None \<Rightarrow>
                    let newLen = oldLen - padLen in
                    if newLen = 0 then Return ([], Some UnpaddedLengthZero)
                    else Return (take (nat newLen) padded, None))))"

section \<open>The one-entry DirIV cache\<close>

text \<open>
  The struct \<open>dirIVCache\<close> without its \<open>sync.RWMutex\<close>: every method holds the
  lock from entry to return, so each is one atomic step on the four fields.
\<close>

record dirIVCache =
  cleared :: bool
  iv :: "byte list"
  dir :: string
  translatedDir :: string

definition lookup :: "dirIVCache \<Rightarrow> string \<Rightarrow> bool \<times> byte list \<times> string" where
  "lookup c d =
     (if \<not> cleared c \<and> dir c = d then (True, iv c, translatedDir c)
      else (False, [], ''''))"

definition store :: "dirIVCache \<Rightarrow> string \<Rightarrow> byte list \<Rightarrow> string \<Rightarrow> dirIVCache" where
  "store c d v t = c\<lparr>cleared := False, iv := v, dir := d, translatedDir := t\<rparr>"

definition Clear :: "dirIVCache \<Rightarrow> dirIVCache" where
  "Clear c = c\<lparr>cleared := True\<rparr>"

text \<open>
  A \<open>dirIVCache\<close> that no method has touched yet holds Go's zero values; the
  source has no constructor for it.
\<close>

definition zero_dirIVCache :: dirIVCache where
  "zero_dirIVCache = \<lparr>cleared = False, iv = [], dir = '''', translatedDir = ''''\<rparr>"

text \<open>Sequences of the two mutating methods, run from left to right.\<close>

datatype cache_op = Store string "byte list" string | ClearOp

fun apply_cache_op :: "dirIVCache \<Rightarrow> cache_op \<Rightarrow> dirIVCache" where
  "apply_cache_op c (Store d v t) = store c d v t"
| "apply_cache_op c ClearOp = Clear c"

definition run_cache_ops :: "dirIVCache \<Rightarrow> cache_op list \<Rightarrow> dirIVCache" where
  "run_cache_ops c ops = foldl apply_cache_op c ops"

text \<open>
  The specification's reading of a history: the slot holds the triple of the most
  recent \<open>store\<close> unless a \<open>Clear\<close> came after it, and a lookup hits exactly on the
  directory held in the slot.
\<close>

fun spec_slot_step ::
  "(string \<times> byte list \<times> string) option \<Rightarrow> cache_op \<Rightarrow> (string \<times> byte list \<times> string) option"
where
  "spec_slot_step s (Store d v t) = Some (d, v, t)"
| "spec_slot_step s ClearOp = None"

definition spec_slot :: "cache_op list \<Rightarrow> (string \<times> byte list \<times> string) option" where
  "spec_slot ops = foldl spec_slot_step None ops"

definition spec_lookup :: "cache_op list \<Rightarrow> string \<Rightarrow> bool \<times> byte list \<times> string" where
  "spec_lookup ops d =
     (case spec_slot ops of
        None \<Rightarrow> (False, [], '''')
      | Some (d0, v, t) \<Rightarrow> if d = d0 then (True, v, t) else (False, [], ''''))"

section \<open>Path functions of the Go library\<close>

text \<open>
  \<open>strings.Split\<close> (the source only splits on the one-character separator
  \<open>"/"\<close>), \<open>strings.Join\<close>, and \<open>filepath.Clean\<close>, \<open>Join\<close>, \<open>Dir\<close> and \<open>Base\<close>
  on Unix, where the separator is \<open>/\<close> and there is no volume name.
\<close>

fun strings_Split :: "string \<Rightarrow> char \<Rightarrow> string list" where
  "strings_Split [] sep = [[]]"
| "strings_Split (c # cs) sep =
     (if c = sep then [] # strings_Split cs sep
      else (case strings_Split cs sep of
              [] \<Rightarrow> [[c]]
            | w # ws \<Rightarrow> (c # w) # ws))"

fun strings_Join :: "string list \<Rightarrow> string \<Rightarrow> string" where
  "strings_Join [] sep = []"
| "strings_Join [x] sep = x"
| "strings_Join (x # y # ys) sep = x @ sep @ strings_Join (y # ys) sep"

text \<open>
  \<open>Clean\<close> walks the path element by element: empty elements and \<open>.\<close> are
  dropped; \<open>..\<close> removes the last element kept so far if there is one that is not
  itself \<open>..\<close>, is kept at the front of a path that is not rooted, and is dropped
  at the root; any other element is kept. The empty result is \<open>"."\<close>.
\<close>

definition clean_step :: "bool \<Rightarrow> string list \<Rightarrow> string \<Rightarrow> string list" where
  "clean_step rooted out e =
     (if e = '''' \<or> e = ''.'' then out
      else if e = ''..'' then
        (if out \<noteq> [] \<and> last out \<noteq> ''..'' then butlast out
         else if \<not> rooted then out @ [''..'']
         else out)
      else out @ [e])"

definition filepath_Clean :: "string \<Rightarrow> string" where
  "filepath_Clean path =
     (if path = '''' then ''.''
      else
        let rooted = (hd path = CHR ''/'');
            out = foldl (clean_step rooted) [] (strings_Split path (CHR ''/''));
            s = (if rooted then ''/'' else '''') @ strings_Join out ''/''
        in if s = '''' then ''.'' else s)"

definition filepath_Join :: "string list \<Rightarrow> string" where
  "filepath_Join elem =
     (case dropWhile (\<lambda>e. e = '''') elem of
        [] \<Rightarrow> ''''
      | e # es \<Rightarrow> filepath_Clean (strings_Join (e # es) ''/''))"

definition filepath_Dir :: "string \<Rightarrow> string" where
  "filepath_Dir path = filepath_Clean (rev (dropWhile (\<lambda>c. c \<noteq> CHR ''/'') (rev path)))"

definition filepath_Base :: "string \<Rightarrow> string" where
  "filepath_Base path =
     (if path = '''' then ''.''
      else
        let stripped = rev (dropWhile (\<lambda>c. c = CHR ''/'') (rev path));
            element = rev (takeWhile (\<lambda>c. c \<noteq> CHR ''/'') (rev stripped))
        in if element = '''' then ''/'' else element)"

text \<open>
  The path elements that \<open>Clean\<close> keeps as they are: not empty, without a slash,
  and neither \<open>.\<close> nor \<open>..\<close>.
\<close>

definition plain_element :: "string \<Rightarrow> bool" where
  "plain_element e = (e \<noteq> '''' \<and> CHR ''/'' \<notin> set e \<and> e \<noteq> ''.'' \<and> e \<noteq> ''..'')"

section \<open>Reading a directory IV (\<open>ReadDirIV\<close>)\<close>

definition dirIVLen :: int where
  "dirIVLen = 16"

definition DirIVFilename :: string where
  "DirIVFilename = ''gocryptfs.diriv''"

text \<open>
  What the operating system answers: \<open>ioutil.ReadFile\<close> gives the content of a file
  or fails with an error number, and \<open>os.IsNotExist\<close> of the error of \<open>os.Stat\<close>
  says whether a directory is gone.

  Modelled from the spec: package \<open>toggledlog\<close> is not among the sources. Section 7
  says that warnings may be promoted to fatal when the \<open>wpanic\<close> switch is set, so
  \<open>Warn.Printf\<close> panics after printing when \<open>Warn_PanicAfter\<close> holds and returns
  otherwise; \<open>Debug.Printf\<close> always returns.
\<close>

record os_env =
  ioutil_ReadFile :: "string \<Rightarrow> errno + byte list"
  os_Stat_IsNotExist :: "string \<Rightarrow> bool"
  Warn_PanicAfter :: bool

text \<open>
  The trace lists the calls to the operating system and to the loggers in the
  order they happen, and after them, whenever \<open>ReadDirIV\<close> returns, the directory
  it was called on with the pair it returned. The parameter \<open>dir\<close> of the source
  is \<open>d\<close> below, and its variable \<open>iv\<close> is \<open>iv0\<close> or \<open>iv1\<close>, because \<open>dir\<close> and \<open>iv\<close>
  name the fields of the cache.
\<close>

datatype event =
    EvReadFile string
  | EvStat string
  | EvDebug
  | EvWarn
  | EvReadDirIV string "byte list" "error option"

definition ReadDirIV ::
  "os_env \<Rightarrow> event list \<Rightarrow> string \<Rightarrow> event list \<times> (byte list \<times> error option) outcome"
where
  "ReadDirIV env tr d =
     (let ivfile = filepath_Join [d, DirIVFilename];
          tr = tr @ [EvDebug, EvReadFile ivfile]
      in case ioutil_ReadFile env ivfile of
           Inl en \<Rightarrow>
             let readErr = PathError ivfile en;
                 tr = tr @ [EvStat d]
             in if os_Stat_IsNotExist env d then
                  (tr @ [EvDebug, EvReadDirIV d [] (Some readErr)], Return ([], Some readErr))
                else if Warn_PanicAfter env then
                  (tr @ [EvWarn], Panic (PanicMsg ''PanicAfter''))
                else
                  (tr @ [EvWarn, EvReadDirIV d [] (Some readErr)], Return ([], Some readErr))
         | Inr content \<Rightarrow>
             if int (length content) \<noteq> dirIVLen then
               (tr @ [EvReadDirIV d [] (Some (InvalidLength (int (length content))))],
                Return ([], Some (InvalidLength (int (length content)))))
             else (tr @ [EvReadDirIV d content None], Return (content, None)))"

section \<open>Encrypting a path (\<open>EncryptPathDirIV\<close>)\<close>

text \<open>
  Of the receiver \<open>be *NameTransform\<close> the function touches the field \<open>DirIVCache\<close>
  and the method \<open>encryptName\<close>. That method is not among the sources, so it is a
  parameter \<open>enc\<close>: it gives a string or, as \<open>pad16\<close> does on an empty name, panics.
\<close>

record NameTransform =
  DirIVCache :: dirIVCache

type_synonym encryptName = "string \<Rightarrow> byte list \<Rightarrow> panic + string"

text \<open>
  The loop over \<open>plainNames\<close>. It carries \<open>wd\<close>, \<open>encryptedNames\<close> and the variable
  \<open>iv\<close>, which holds the IV read last when the loop ends.
\<close>

fun EncryptPathDirIV_walk ::
  "encryptName \<Rightarrow> os_env \<Rightarrow> string list \<Rightarrow> string \<Rightarrow> string list \<Rightarrow> byte list \<Rightarrow> event list
   \<Rightarrow> event list \<times> ((string list \<times> byte list) \<times> error option) outcome"
where
  "EncryptPathDirIV_walk enc env [] wd encryptedNames iv0 tr =
     (tr, Return ((encryptedNames, iv0), None))"
| "EncryptPathDirIV_walk enc env (plainName # rest) wd encryptedNames iv0 tr =
     (case ReadDirIV env tr wd of
        (tr1, Panic p) \<Rightarrow> (tr1, Panic p)
      | (tr1, Return (iv1, Some err)) \<Rightarrow> (tr1, Return ((encryptedNames, iv1), Some err))
      | (tr1, Return (iv1, None)) \<Rightarrow>
          (case enc plainName iv1 of
             Inl p \<Rightarrow> (tr1, Panic p)
           | Inr encryptedName \<Rightarrow>
               EncryptPathDirIV_walk enc env rest (filepath_Join [wd, encryptedName])
                 (encryptedNames @ [encryptedName]) iv1 tr1))"

definition EncryptPathDirIV ::
  "encryptName \<Rightarrow> os_env \<Rightarrow> NameTransform \<Rightarrow> event list \<Rightarrow> string \<Rightarrow> string
   \<Rightarrow> NameTransform \<times> event list \<times> (string \<times> error option) outcome"
where
  "EncryptPathDirIV enc env be tr plainPath rootDir =
     (if plainPath = '''' then (be, tr, Return (plainPath, None))
      else
        let parentDir = filepath_Dir plainPath in
        (case lookup (DirIVCache be) parentDir of
           (True, iv0, cParentDir) \<Rightarrow>
             let baseName = filepath_Base plainPath in
             (case enc baseName iv0 of
                Inl p \<Rightarrow> (be, tr, Panic p)
              | Inr cBaseName \<Rightarrow> (be, tr, Return (cParentDir @ ''/'' @ cBaseName, None)))
         | (False, iv0, cParentDir) \<Rightarrow>
             (case EncryptPathDirIV_walk enc env (strings_Split plainPath (CHR ''/''))
                     rootDir [] iv0 tr of
                (tr1, Panic p) \<Rightarrow> (be, tr1, Panic p)
              | (tr1, Return (r, Some err)) \<Rightarrow> (be, tr1, Return ('''', Some err))
              | (tr1, Return ((encryptedNames, iv1), None)) \<Rightarrow>
                  let cipherPath = strings_Join encryptedNames ''/'';
                      cParentDir = filepath_Dir cipherPath
                  in (be\<lparr>DirIVCache := store (DirIVCache be) parentDir iv1 cParentDir\<rparr>,
                      tr1, Return (cipherPath, None)))))"

section \<open>The command line front end\<close>

definition ERREXIT_USAGE :: int where
  "ERREXIT_USAGE = 1"

definition ERREXIT_MOUNT :: int where
  "ERREXIT_MOUNT = 3"

definition ERREXIT_CIPHERDIR :: int where
  "ERREXIT_CIPHERDIR = 6"

definition ERREXIT_INIT :: int where
  "ERREXIT_INIT = 7"

definition ERREXIT_LOADCONF :: int where
  "ERREXIT_LOADCONF = 8"

definition ERREXIT_PASSWORD :: int where
  "ERREXIT_PASSWORD = 9"

definition ERREXIT_MOUNTPOINT :: int where
  "ERREXIT_MOUNTPOINT = 10"

record argContainer =
  debug :: bool
  init :: bool
  zerokey :: bool
  fusedebug :: bool
  openssl :: bool
  passwd :: bool
  foreground :: bool
  version :: bool
  plaintextnames :: bool
  quiet :: bool
  diriv :: bool
  emenames :: bool
  gcmiv128 :: bool
  nosyslog :: bool
  wpanic :: bool
  masterkey :: string
  mountpoint :: string
  cipherdir :: string
  cpuprofile :: string
  config :: string
  extpass :: string
  memprofile :: string
  notifypid :: int
  scryptn :: int

text \<open>
  Modelled from the spec: package \<open>configfile\<close> is not among the sources. Section 3
  gives the fields of the configuration document, with \<open>FeatureFlags\<close> a sequence of
  tokens from \<open>PlaintextNames\<close>, \<open>DirIV\<close>, \<open>EMENames\<close>, \<open>GCMIV128\<close>, and section 4.2
  gives \<open>IsFeatureFlagSet(name)\<close>, which says whether the token is among them.
  The key-derivation parameters (\<open>ScryptObject\<close>) play no part below and are left out.
\<close>

record ConfFile =
  Version :: int
  Creator :: string
  EncryptedKey :: "byte list"
  FeatureFlags :: "string list"

definition FlagPlaintextNames :: string where
  "FlagPlaintextNames = ''PlaintextNames''"

definition FlagDirIV :: string where
  "FlagDirIV = ''DirIV''"

definition FlagEMENames :: string where
  "FlagEMENames = ''EMENames''"

definition FlagGCMIV128 :: string where
  "FlagGCMIV128 = ''GCMIV128''"

definition IsFeatureFlagSet :: "ConfFile \<Rightarrow> string \<Rightarrow> bool" where
  "IsFeatureFlagSet cf flagWant = (flagWant \<in> set (FeatureFlags cf))"

text \<open>
  The struct \<open>fusefrontend.Args\<close>, with the fields that the composite literal in
  \<open>initFuseFrontend\<close> sets.
\<close>

record Args =
  Cipherdir :: string
  Masterkey :: "byte list"
  OpenSSL :: bool
  PlaintextNames :: bool
  DirIV :: bool
  EMENames :: bool
  GCMIV128 :: bool

text \<open>
  The first part of \<open>initFuseFrontend\<close>, up to the value of \<open>frontendArgs\<close> that is
  handed to \<open>fusefrontend.NewFS\<close>. \<open>confFile\<close> is \<open>None\<close> for the nil pointer that
  \<open>main\<close> passes when \<open>-zerokey\<close> or \<open>-masterkey\<close> was used.
\<close>

definition initFuseFrontend_frontendArgs ::
  "byte list \<Rightarrow> argContainer \<Rightarrow> ConfFile option \<Rightarrow> Args"
where
  "initFuseFrontend_frontendArgs key args confFile =
     (let frontendArgs =
            \<lparr>Cipherdir = cipherdir args, Masterkey = key, OpenSSL = openssl args,
             PlaintextNames = plaintextnames args, DirIV = diriv args,
             EMENames = emenames args, GCMIV128 = gcmiv128 args\<rparr>;
          frontendArgs =
            (case confFile of
               None \<Rightarrow> frontendArgs
             | Some cf \<Rightarrow>
                 frontendArgs
                   \<lparr>PlaintextNames := IsFeatureFlagSet cf FlagPlaintextNames,
                    DirIV := IsFeatureFlagSet cf FlagDirIV,
                    EMENames := IsFeatureFlagSet cf FlagEMENames,
                    GCMIV128 := IsFeatureFlagSet cf FlagGCMIV128\<rparr>);
          frontendArgs =
            (if EMENames frontendArgs then frontendArgs\<lparr>DirIV := True\<rparr> else frontendArgs);
          frontendArgs =
            (if PlaintextNames frontendArgs
             then frontendArgs\<lparr>DirIV := False, EMENames := False\<rparr>
             else frontendArgs)
      in frontendArgs)"

text \<open>
  \<open>loadConfig\<close> talks to three collaborators that are not among the sources and are
  parameters here: \<open>os.Stat\<close> on the config path (the error number, if it fails),
  \<open>readPassword\<close> (which gives the password or ends the process with an exit code
  of its own) and \<open>configfile.LoadConfFile\<close> (which gives the master key with the
  parsed file, or an error). \<open>os.Exit(code)\<close> ends the process: \<open>Exit code\<close>.
  The lines printed on the way are kept.
\<close>

record config_env =
  os_Stat :: "string \<Rightarrow> errno option"
  readPassword :: "string \<Rightarrow> int + string"
  LoadConfFile :: "string \<Rightarrow> string \<Rightarrow> error + (byte list \<times> ConfFile)"

datatype printed =
    Println_error error
  | Printf_Password
  | Println_Wrong_password
  | Info_Decrypting_master_key
  | Info_done

datatype 'a process = Exit int | Continue 'a

definition loadConfig ::
  "config_env \<Rightarrow> argContainer \<Rightarrow> printed list \<times> (byte list \<times> ConfFile) process"
where
  "loadConfig env args =
     (case os_Stat env (config args) of
        Some en \<Rightarrow> ([Println_error (PathError (config args) en)], Exit ERREXIT_LOADCONF)
      | None \<Rightarrow>
          let out = (if extpass args = '''' then [Printf_Password] else []) in
          (case readPassword env (extpass args) of
             Inl code \<Rightarrow> (out, Exit code)
           | Inr pw \<Rightarrow>
               let out = out @ [Info_Decrypting_master_key] in
               (case LoadConfFile env (config args) pw of
                  Inl err \<Rightarrow>
                    (out @ [Println_error err, Println_Wrong_password], Exit ERREXIT_LOADCONF)
                | Inr (key, confFile) \<Rightarrow> (out @ [Info_done], Continue (key, confFile)))))"

section \<open>Example inputs\<close>

text \<open>
  Concrete inputs on which the statements below are evaluated: a cipher directory
  \<open>/c\<close> whose \<open>gocryptfs.diriv\<close> holds 16 bytes, with a subdirectory \<open>/c/Ed\<close>
  that has the same and a subdirectory \<open>/c/Ea\<close> whose \<open>gocryptfs.diriv\<close> holds
  3 bytes, and nothing else; a stand-in for
  \<open>encryptName\<close> that panics on the empty name, as \<open>pad16\<close> does, and otherwise
  puts a letter in front of the name; the command line of a plain mount of \<open>/c\<close>;
  and a config file that the password \<open>hunter2\<close> unlocks.
\<close>

definition example_iv :: "byte list" where
  "example_iv = [1, 2, 3, 4, 5, 6, 7, 8, 9, 10, 11, 12, 13, 14, 15, 16]"

definition example_os :: os_env where
  "example_os =
     \<lparr>ioutil_ReadFile =
        (\<lambda>path. if path = ''/c/gocryptfs.diriv'' then Inr example_iv
                 else if path = ''/c/Ed/gocryptfs.diriv'' then Inr example_iv
                 else if path = ''/c/Ea/gocryptfs.diriv'' then Inr [1, 2, 3]
                 else Inl 2),
      os_Stat_IsNotExist = (\<lambda>d. d \<noteq> ''/c'' \<and> d \<noteq> ''/c/Ed'' \<and> d \<noteq> ''/c/Ea''),
      Warn_PanicAfter = False\<rparr>"

definition example_enc :: encryptName where
  "example_enc plainName iv0 =
     (if plainName = '''' then Inl (PanicMsg ''Padding zero-length string makes no sense'')
      else Inr (''E'' @ plainName))"

definition example_be :: NameTransform where
  "example_be = \<lparr>DirIVCache = zero_dirIVCache\<rparr>"

definition example_args :: argContainer where
  "example_args =
     \<lparr>debug = False, init = False, zerokey = False, fusedebug = False, openssl = True,
      passwd = False, foreground = False, version = False, plaintextnames = False,
      quiet = False, diriv = True, emenames = True, gcmiv128 = True, nosyslog = False,
      wpanic = False, masterkey = '''', mountpoint = ''/mnt'', cipherdir = ''/c'',
      cpuprofile = '''', config = ''/c/gocryptfs.conf'', extpass = '''',
      memprofile = '''', notifypid = 0, scryptn = 16\<rparr>"

definition example_conf :: ConfFile where
  "example_conf =
     \<lparr>Version = 2, Creator = ''gocryptfs'', EncryptedKey = [],
      FeatureFlags = [''DirIV'', ''EMENames'', ''GCMIV128'']\<rparr>"

definition example_config_env :: config_env where
  "example_config_env =
     \<lparr>os_Stat = (\<lambda>path. if path = ''/c/gocryptfs.conf'' then None else Some 2),
      readPassword = (\<lambda>prog. Inr ''hunter3''),
      LoadConfFile =
        (\<lambda>path pw. if pw = ''hunter2'' then Inr (replicate 32 0, example_conf)
                    else Inl WrongPassword)\<rparr>"

section \<open>Properties of the padding\<close>

subsection \<open>The two loops\<close>

lemma pad16_fill_eq:
  "0 \<le> i \<Longrightarrow> i \<le> newLen \<Longrightarrow> newLen = int (length padded) \<Longrightarrow>
   pad16_fill padded i newLen b = Return (take (nat i) padded @ replicate (nat (newLen - i)) b)"
proof (induction padded i newLen b rule: pad16_fill.induct)
  case (1 padded i newLen padByte)
  show ?case
  proof (cases "i < newLen")
    case False
    then have "pad16_fill padded i newLen padByte = Return padded"
      by (subst pad16_fill.simps) simp
    with False 1(3,4) show ?thesis by simp
  next
    case True
    let ?p = "padded[nat i := padByte]"
    have st: "go_store padded i padByte = Return ?p"
      using True 1(2,4) by (simp add: go_store_def)
    have unf: "pad16_fill padded i newLen padByte = pad16_fill ?p (i + 1) newLen padByte"
      using True st by (subst pad16_fill.simps) simp
    have "pad16_fill ?p (i + 1) newLen padByte
        = Return (take (nat (i + 1)) ?p @ replicate (nat (newLen - (i + 1))) padByte)"
      using 1(1)[OF True st] True 1(2,4) by simp
    moreover have "nat (i + 1) = Suc (nat i)" using 1(2) by simp
    moreover have "nat i < length padded" using True 1(2,4) by simp
    moreover have "nat (newLen - i) = Suc (nat (newLen - (i + 1)))" using True by simp
    ultimately show ?thesis
      using unf by (simp add: take_Suc_conv_app_nth)
  qed
qed

lemma pad16_eq:
  assumes "orig \<noteq> []"
  shows "pad16 orig = Return (orig @ replicate (nat (16 - int (length orig) mod 16))
                                   (word_of_int (16 - int (length orig) mod 16)))"
proof -
  define old where "old = int (length orig)"
  define pl where "pl = 16 - old mod 16"
  have pl: "0 < pl" "pl \<le> 16" "pl \<noteq> 0" by (simp_all add: pl_def)
  define padded where "padded = go_copy (replicate (nat (old + pl)) (0::byte)) orig"
  have len: "int (length padded) = old + pl"
    using pl by (simp add: go_copy_def padded_def old_def)
  have tk: "take (nat old) padded = orig"
    using pl by (simp add: go_copy_def padded_def old_def)
  have "pad16_fill padded old (old + pl) (word_of_int pl)
      = Return (take (nat old) padded @ replicate (nat ((old + pl) - old)) (word_of_int pl))"
    by (rule pad16_fill_eq) (use pl len in \<open>simp_all add: old_def\<close>)
  then have fill: "pad16_fill padded old (old + pl) (word_of_int pl)
      = Return (orig @ replicate (nat pl) (word_of_int pl))"
    using tk by simp
  have "pad16 orig = pad16_fill padded old (old + pl) (word_of_int pl)"
    unfolding pad16_def aes_BlockSize_def Let_def old_def[symmetric] pl_def[symmetric]
      padded_def[symmetric]
    using assms pl by (simp add: old_def padded_def)
  with fill show ?thesis by (simp add: pl_def old_def)
qed

lemma unPad16_check_cases:
  "0 \<le> i \<Longrightarrow> oldLen = int (length padded) \<Longrightarrow>
   (unPad16_check padded i oldLen b = Return None \<and>
      (\<forall>j. nat i \<le> j \<and> j < length padded \<longrightarrow> padded ! j = b)) \<or>
   (\<exists>k. unPad16_check padded i oldLen b = Return (Some (PaddingByteInvalid k)) \<and>
      i \<le> k \<and> k < oldLen \<and> padded ! nat k \<noteq> b)"
proof (induction padded i oldLen b rule: unPad16_check.induct)
  case (1 padded i oldLen padByte)
  show ?case
  proof (cases "i < oldLen")
    case False
    then have "unPad16_check padded i oldLen padByte = Return None"
      by (subst unPad16_check.simps) simp
    moreover have "\<forall>j. nat i \<le> j \<and> j < length padded \<longrightarrow> padded ! j = padByte"
      using False 1(2,3) by auto
    ultimately show ?thesis by simp
  next
    case True
    have ix: "go_index padded i = Return (padded ! nat i)"
      using True 1(2,3) by (simp add: go_index_def)
    show ?thesis
    proof (cases "padded ! nat i = padByte")
      case False
      then have "unPad16_check padded i oldLen padByte = Return (Some (PaddingByteInvalid i))"
        using True ix by (subst unPad16_check.simps) simp
      with False True show ?thesis by auto
    next
      case eq: True
      have unf: "unPad16_check padded i oldLen padByte = unPad16_check padded (i + 1) oldLen padByte"
        using True ix eq by (subst unPad16_check.simps) simp
      have IH: "(unPad16_check padded (i + 1) oldLen padByte = Return None \<and>
                (\<forall>j. nat (i + 1) \<le> j \<and> j < length padded \<longrightarrow> padded ! j = padByte)) \<or>
             (\<exists>k. unPad16_check padded (i + 1) oldLen padByte = Return (Some (PaddingByteInvalid k)) \<and>
                i + 1 \<le> k \<and> k < oldLen \<and> padded ! nat k \<noteq> padByte)"
        using 1(1)[OF True ix] eq 1(2,3) by simp
      have S: "nat (i + 1) = Suc (nat i)" using 1(2) by simp
      have all: "(\<forall>j. nat (i + 1) \<le> j \<and> j < length padded \<longrightarrow> padded ! j = padByte)
             \<Longrightarrow> (\<forall>j. nat i \<le> j \<and> j < length padded \<longrightarrow> padded ! j = padByte)"
        unfolding S using eq by (metis Suc_leI le_neq_implies_less)
      from IH show ?thesis
      proof
        assume "unPad16_check padded (i + 1) oldLen padByte = Return None \<and>
                (\<forall>j. nat (i + 1) \<le> j \<and> j < length padded \<longrightarrow> padded ! j = padByte)"
        then show ?thesis using unf all by simp
      next
        assume "\<exists>k. unPad16_check padded (i + 1) oldLen padByte = Return (Some (PaddingByteInvalid k)) \<and>
                i + 1 \<le> k \<and> k < oldLen \<and> padded ! nat k \<noteq> padByte"
        then obtain k where "unPad16_check padded (i + 1) oldLen padByte = Return (Some (PaddingByteInvalid k))"
          "i + 1 \<le> k" "k < oldLen" "padded ! nat k \<noteq> padByte" by blast
        then show ?thesis using unf by auto
      qed
    qed
  qed
qed

lemma go_index_last: "p \<noteq> [] \<Longrightarrow> go_index p (int (length p) - 1) = Return (last p)"
proof -
  assume ne: "p \<noteq> []"
  have "nat (int (length p) - 1) = length p - 1" by simp
  then have "p ! nat (int (length p) - 1) = last p" using last_conv_nth[OF ne] by simp
  moreover have "0 \<le> int (length p) - 1" "int (length p) - 1 < int (length p)" using ne by simp_all
  ultimately show ?thesis by (simp add: go_index_def)
qed

lemma unPad16_nonempty_unfold:
  assumes "p \<noteq> []" and "int (length p) mod 16 = 0"
  shows "unPad16 p =
     (if uint (last p) \<le> 0 then Return ([], Some PaddingZeroLength)
      else if uint (last p) > 16 then Return ([], Some (PaddingTooLong (uint (last p))))
      else (case unPad16_check p (int (length p) - uint (last p)) (int (length p)) (last p) of
              Panic q \<Rightarrow> Panic q
            | Return (Some e) \<Rightarrow> Return ([], Some e)
            | Return None \<Rightarrow>
                if int (length p) - uint (last p) = 0 then Return ([], Some UnpaddedLengthZero)
                else Return (take (nat (int (length p) - uint (last p))) p, None)))"
  unfolding unPad16_def Let_def aes_BlockSize_def
  by (simp only: assms go_index_last[OF assms(1)] outcome.case simp_thms if_False)

lemma unPad16_success:
  assumes "unPad16 p = Return (v, None)"
  shows "p \<noteq> [] \<and> int (length p) mod 16 = 0 \<and> 0 < uint (last p) \<and> uint (last p) \<le> 16 \<and>
         int (length p) - uint (last p) \<noteq> 0 \<and>
         v = take (nat (int (length p) - uint (last p))) p"
proof -
  have ne: "p \<noteq> []"
    using assms by (auto simp: unPad16_def go_index_def aes_BlockSize_def)
  have al: "int (length p) mod 16 = 0"
    using assms unfolding unPad16_def Let_def aes_BlockSize_def
    by (auto split: if_splits)
  have nz: "\<not> uint (last p) \<le> 0" and le: "\<not> uint (last p) > 16"
    using assms unfolding unPad16_nonempty_unfold[OF ne al]
    by (auto split: if_splits)
  then have R: "(case unPad16_check p (int (length p) - uint (last p)) (int (length p)) (last p) of
              Panic q \<Rightarrow> Panic q
            | Return (Some e) \<Rightarrow> Return ([], Some e)
            | Return None \<Rightarrow>
                if int (length p) - uint (last p) = 0 then Return ([], Some UnpaddedLengthZero)
                else Return (take (nat (int (length p) - uint (last p))) p, None)) = Return (v, None)"
    using assms unfolding unPad16_nonempty_unfold[OF ne al] by simp
  then have "int (length p) - uint (last p) \<noteq> 0"
      and "v = take (nat (int (length p) - uint (last p))) p"
    by (auto split: outcome.splits option.splits if_splits)
  moreover have "0 < uint (last p)" "uint (last p) \<le> 16" using nz le by linarith+
  ultimately show ?thesis using ne al by simp
qed


subsection \<open>Padding\<close>

lemma unPad16_padded:
  assumes pl: "0 < pl" "pl \<le> 16" and b: "b \<noteq> []"
    and al: "(int (length b) + pl) mod 16 = 0"
  shows "unPad16 (b @ replicate (nat pl) (word_of_int pl)) = Return (b, None)"
proof -
  define pb :: byte where "pb = word_of_int pl"
  define p where "p = b @ replicate (nat pl) pb"
  have ne: "p \<noteq> []" using b by (simp add: p_def)
  have len: "int (length p) = int (length b) + pl" using pl by (simp add: p_def)
  have lastp: "last p = pb" using pl by (simp add: p_def)
  have upb: "uint pb = pl"
    using pl by (simp add: pb_def uint_word_of_int take_bit_int_eq_self)
  have tail: "\<And>j. nat (int (length p) - pl) \<le> j \<Longrightarrow> j < length p \<Longrightarrow> p ! j = pb"
    using pl len by (simp add: p_def nth_append)
  have chk: "unPad16_check p (int (length p) - pl) (int (length p)) pb = Return None"
  proof -
    have "0 \<le> int (length p) - pl" using len by simp
    from unPad16_check_cases[where b = pb, OF this refl]
    show ?thesis
    proof
      assume "unPad16_check p (int (length p) - pl) (int (length p)) pb = Return None \<and>
              (\<forall>j. nat (int (length p) - pl) \<le> j \<and> j < length p \<longrightarrow> p ! j = pb)"
      then show ?thesis by simp
    next
      assume "\<exists>k. unPad16_check p (int (length p) - pl) (int (length p)) pb
                    = Return (Some (PaddingByteInvalid k)) \<and>
              int (length p) - pl \<le> k \<and> k < int (length p) \<and> p ! nat k \<noteq> pb"
      then obtain k where k: "int (length p) - pl \<le> k" "k < int (length p)" "p ! nat k \<noteq> pb"
        by blast
      have "nat (int (length p) - pl) \<le> nat k" using k(1) by simp
      moreover have "nat k < length p" using k(1,2) len by simp
      ultimately have "p ! nat k = pb" by (rule tail)
      with k(3) show ?thesis by simp
    qed
  qed
  have tk: "take (nat (int (length p) - pl)) p = b" using len by (simp add: p_def)
  have nz: "int (length p) - pl \<noteq> 0" using len b by simp
  have al': "int (length p) mod 16 = 0" using al len by simp
  have "unPad16 p = Return (b, None)"
    unfolding unPad16_nonempty_unfold[OF ne al'] lastp upb
    using pl chk tk nz by simp
  then show ?thesis by (simp add: p_def pb_def)
qed

text \<open>
  Claim C1. For every non-empty byte sequence \<open>b\<close>, \<open>pad16 b\<close> returns a slice
  whose length is a positive multiple of 16, greater than the length of \<open>b\<close> and
  at most 16 more, and \<open>unPad16\<close> of it returns exactly \<open>b\<close> with a nil error.
\<close>

theorem pad16_unPad16_roundtrip:
  assumes "b \<noteq> []"
  shows "\<exists>p. pad16 b = Return p \<and> length p mod 16 = 0 \<and> 0 < length p \<and>
             length b < length p \<and> length p \<le> length b + 16 \<and>
             unPad16 p = Return (b, None)"
proof -
  define pl where "pl = 16 - int (length b) mod 16"
  have pl: "0 < pl" "pl \<le> 16" by (simp_all add: pl_def)
  define p where "p = b @ replicate (nat pl) (word_of_int pl :: byte)"
  have pad: "pad16 b = Return p"
    using pad16_eq[OF assms] by (simp add: p_def pl_def)
  have al: "(int (length b) + pl) mod 16 = 0"
    unfolding pl_def by presburger
  have len: "int (length p) = int (length b) + pl"
    using pl by (simp add: p_def)
  have "int (length p) mod 16 = 0" using al len by simp
  then have m: "length p mod 16 = 0"
    by (metis of_nat_mod of_nat_numeral of_nat_eq_0_iff)
  have un: "unPad16 p = Return (b, None)"
    unfolding p_def by (rule unPad16_padded[OF pl assms al])
  have "length b < length p" "length p \<le> length b + 16" using len pl by linarith+
  with pad m un show ?thesis by auto
qed

theorem pad16_unPad16_roundtrip_witness:
  "[1, 2, 3 :: byte] \<noteq> [] \<and>
   (\<exists>p. pad16 [1, 2, 3] = Return p \<and> length p mod 16 = 0 \<and> 0 < length p \<and>
        length [1, 2, 3 :: byte] < length p \<and> length p \<le> length [1, 2, 3 :: byte] + 16 \<and>
        unPad16 p = Return ([1, 2, 3], None))"
proof -
  have h: "[1, 2, 3 :: byte] \<noteq> []" by simp
  from h pad16_unPad16_roundtrip[OF h] show ?thesis by (rule conjI)
qed

text \<open>
  Claim C10. Whenever \<open>unPad16\<close> succeeds, the plaintext it returns is non-empty and
  strictly shorter than the input.
\<close>

theorem unPad16_result_nonempty:
  assumes "unPad16 p = Return (v, None)"
  shows "v \<noteq> [] \<and> length v < length p"
proof -
  from unPad16_success[OF assms]
  have ne: "p \<noteq> []" and al: "int (length p) mod 16 = 0"
    and pl: "0 < uint (last p)" "uint (last p) \<le> 16"
    and nz: "int (length p) - uint (last p) \<noteq> 0"
    and v: "v = take (nat (int (length p) - uint (last p))) p"
    by simp_all
  have "0 < int (length p)" using ne by simp
  with al have "16 \<le> int (length p)" by presburger
  with pl nz have pos: "0 < int (length p) - uint (last p)" by linarith
  have "length v = nat (int (length p) - uint (last p))" using v pl by simp
  with pos pl show ?thesis by auto
qed

lemma unPad16_15_bytes: "unPad16 ([97] @ replicate 15 15) = Return ([97], None)"
  by (simp add: unPad16_def aes_BlockSize_def go_index_def unPad16_check.simps)

theorem unPad16_result_nonempty_witness:
  "unPad16 ([97] @ replicate 15 15) = Return ([97], None) \<and>
   [97 :: byte] \<noteq> [] \<and> length [97 :: byte] < length ([97 :: byte] @ replicate 15 15)"
  using unPad16_15_bytes unPad16_result_nonempty[OF unPad16_15_bytes] by (rule conjI)

text \<open>
  Claim C2. \<open>unPad16\<close> is to return an error on every malformed input, the empty
  sequence among them. On the empty slice the alignment test passes, the read of
  \<open>padded[oldLen-1]\<close> is out of range, and the function panics instead of
  returning an error.
\<close>

theorem unPad16_empty_panics: "unPad16 [] = Panic (IndexOutOfRange (- 1))"
  by (simp add: unPad16_def go_index_def aes_BlockSize_def)

text \<open>
  On every other malformed input \<open>unPad16\<close> does return an error and the nil slice:
  a length that is not a multiple of 16, a last byte outside \<open>1..16\<close>, or a byte
  among the last \<open>padLen\<close> that differs from the last one.
\<close>

lemma unPad16_rejects_nonempty_malformed:
  assumes ne: "p \<noteq> []"
    and bad: "length p mod 16 \<noteq> 0 \<or> uint (last p) < 1 \<or> 16 < uint (last p) \<or>
              (\<exists>j. length p - unat (last p) \<le> j \<and> j < length p \<and> p ! j \<noteq> last p)"
  shows "\<exists>e. unPad16 p = Return ([], Some e)"
proof (cases "int (length p) mod 16 = 0")
  case False
  then show ?thesis
    unfolding unPad16_def Let_def aes_BlockSize_def by simp
next
  case al: True
  note unf = unPad16_nonempty_unfold[OF ne al]
  show ?thesis
  proof (cases "uint (last p) \<le> 0 \<or> 16 < uint (last p)")
    case True
    then show ?thesis by (subst unf) auto
  next
    case False
    then have pl: "0 < uint (last p)" "uint (last p) \<le> 16" by linarith+
    have "0 < int (length p)" using ne by simp
    with al have "16 \<le> int (length p)" by presburger
    with pl have i0: "0 \<le> int (length p) - uint (last p)" by simp
    from unPad16_check_cases[where b = "last p", OF i0 refl]
    show ?thesis
    proof
      assume "\<exists>k. unPad16_check p (int (length p) - uint (last p)) (int (length p)) (last p)
                    = Return (Some (PaddingByteInvalid k)) \<and>
               int (length p) - uint (last p) \<le> k \<and> k < int (length p) \<and> p ! nat k \<noteq> last p"
      then obtain k where
        "unPad16_check p (int (length p) - uint (last p)) (int (length p)) (last p)
           = Return (Some (PaddingByteInvalid k))" by blast
      then have "unPad16 p = Return ([], Some (PaddingByteInvalid k))"
        using pl by (subst unf) simp
      then show ?thesis by blast
    next
      assume ok: "unPad16_check p (int (length p) - uint (last p)) (int (length p)) (last p) = Return None \<and>
               (\<forall>j. nat (int (length p) - uint (last p)) \<le> j \<and> j < length p \<longrightarrow> p ! j = last p)"
      have "uint (last p) = int (unat (last p))" by simp
      then have eq: "nat (int (length p) - uint (last p)) = length p - unat (last p)"
        by linarith
      from ok have "\<forall>j. nat (int (length p) - uint (last p)) \<le> j \<and> j < length p \<longrightarrow> p ! j = last p"
        by (rule conjunct2)
      then have "\<forall>j. length p - unat (last p) \<le> j \<and> j < length p \<longrightarrow> p ! j = last p"
        unfolding eq .
      then have "\<not> (\<exists>j. length p - unat (last p) \<le> j \<and> j < length p \<and> p ! j \<noteq> last p)"
        by blast
      moreover have "length p mod 16 = 0"
        using al by (metis of_nat_mod of_nat_numeral of_nat_eq_0_iff)
      moreover have "\<not> uint (last p) < 1" "\<not> 16 < uint (last p)"
        using pl by simp_all
      ultimately have False using bad by argo
      then show ?thesis ..
    qed
  qed
qed

section \<open>Properties of the DirIV cache\<close>

lemma run_cache_ops_snoc:
  "run_cache_ops c (ops @ [x]) = apply_cache_op (run_cache_ops c ops) x"
  by (simp add: run_cache_ops_def)

lemma spec_slot_snoc: "spec_slot (ops @ [x]) = spec_slot_step (spec_slot ops) x"
  by (simp add: spec_slot_def)

lemma lookup_store: "lookup (store c d v t) d' = (if d = d' then (True, v, t) else (False, [], ''''))"
  by (simp add: lookup_def store_def)

lemma lookup_Clear: "lookup (Clear c) d = (False, [], '''')"
  by (simp add: lookup_def Clear_def)

text \<open>
  Claim C7, as stated, for every sequence of \<open>store\<close> and \<open>Clear\<close>: on the cache
  that no operation has touched yet (the empty sequence) \<open>lookup("")\<close> is a hit,
  with the nil IV and the empty translated directory, although no \<open>store\<close> has
  happened.
\<close>

theorem dirIVCache_fresh_lookup_counterexample:
  "lookup (run_cache_ops zero_dirIVCache []) '''' = (True, [], '''') \<and>
   spec_lookup [] '''' = (False, [], '''')"
  by (simp add: run_cache_ops_def zero_dirIVCache_def lookup_def spec_lookup_def spec_slot_def)

text \<open>
  Claim C7, amended. After every non-empty sequence of \<open>store\<close> and \<open>Clear\<close>, run
  from any cache, \<open>lookup d\<close> is a hit exactly when the last \<open>store\<close> was for \<open>d\<close>
  and no \<open>Clear\<close> came after it, and then it returns the IV and the translated
  directory of that \<open>store\<close>; after \<open>Clear\<close> every lookup misses; after
  \<open>store c d v t\<close> the lookup of \<open>d\<close> hits with \<open>v\<close> and \<open>t\<close> and the lookup of any
  other directory misses. The cache that no operation has touched yet hits on
  the empty directory name only.
\<close>

theorem dirIVCache_single_slot:
  assumes "ops \<noteq> []"
  shows "lookup (run_cache_ops c ops) d = spec_lookup ops d \<and>
         lookup (Clear c) d = (False, [], '''') \<and>
         lookup (store c d v t) d = (True, v, t) \<and>
         (d' \<noteq> d \<longrightarrow> lookup (store c d v t) d' = (False, [], '''')) \<and>
         lookup zero_dirIVCache d = (if d = '''' then (True, [], '''') else (False, [], ''''))"
proof -
  from assms obtain ops' x where ops: "ops = ops' @ [x]"
    by (cases ops rule: rev_cases) auto
  have "lookup (run_cache_ops c ops) d = spec_lookup ops d"
  proof (cases x)
    case (Store d0 v0 t0)
    then show ?thesis
      unfolding ops run_cache_ops_snoc spec_lookup_def spec_slot_snoc
      by (simp add: lookup_store)
  next
    case ClearOp
    then show ?thesis
      unfolding ops run_cache_ops_snoc spec_lookup_def spec_slot_snoc
      by (simp add: lookup_Clear)
  qed
  moreover have "lookup zero_dirIVCache d = (if d = '''' then (True, [], '''') else (False, [], ''''))"
    by (auto simp: lookup_def zero_dirIVCache_def)
  ultimately show ?thesis
    by (simp add: lookup_store lookup_Clear)
qed

theorem dirIVCache_single_slot_witness:
  "[Store ''a'' example_iv ''Ea'', ClearOp, Store ''b'' example_iv ''Eb''] \<noteq> [] \<and>
   lookup (run_cache_ops zero_dirIVCache
             [Store ''a'' example_iv ''Ea'', ClearOp, Store ''b'' example_iv ''Eb'']) ''b''
     = (True, example_iv, ''Eb'') \<and>
   lookup (run_cache_ops zero_dirIVCache
             [Store ''a'' example_iv ''Ea'', ClearOp, Store ''b'' example_iv ''Eb'']) ''a''
     = (False, [], '''') \<and>
   ''a'' \<noteq> ''b'' \<and> lookup (store zero_dirIVCache ''b'' example_iv ''Eb'') ''a'' = (False, [], '''')"
proof -
  let ?ops = "[Store ''a'' example_iv ''Ea'', ClearOp, Store ''b'' example_iv ''Eb'']"
  have ne: "?ops \<noteq> []" by simp
  have ab: "''a'' \<noteq> ''b''" by simp
  have sb: "spec_lookup ?ops ''b'' = (True, example_iv, ''Eb'')"
    by (simp add: spec_lookup_def spec_slot_def)
  have sa: "spec_lookup ?ops ''a'' = (False, [], '''')"
    by (simp add: spec_lookup_def spec_slot_def)
  from dirIVCache_single_slot[OF ne, of zero_dirIVCache "''b''" example_iv "''Eb''" "''a''"]
  have "lookup (run_cache_ops zero_dirIVCache ?ops) ''b'' = spec_lookup ?ops ''b''"
    and "''a'' \<noteq> ''b'' \<longrightarrow> lookup (store zero_dirIVCache ''b'' example_iv ''Eb'') ''a'' = (False, [], '''')"
    by simp_all
  moreover from dirIVCache_single_slot[OF ne, of zero_dirIVCache "''a''" example_iv "''Eb''" "''a''"]
  have "lookup (run_cache_ops zero_dirIVCache ?ops) ''a'' = spec_lookup ?ops ''a''"
    by simp
  ultimately show ?thesis using ne ab sa sb by simp
qed

section \<open>Properties of the front end\<close>

text \<open>
  Claim C4. Whatever the command line flags and whatever the feature flags of the
  config file (or no config file at all), the arguments handed to the file system
  satisfy: \<open>EMENames\<close> implies \<open>DirIV\<close>, and \<open>PlaintextNames\<close> implies neither
  \<open>DirIV\<close> nor \<open>EMENames\<close>.
\<close>

theorem initFuseFrontend_flag_normalization:
  "(EMENames (initFuseFrontend_frontendArgs key args confFile)
      \<longrightarrow> DirIV (initFuseFrontend_frontendArgs key args confFile)) \<and>
   (PlaintextNames (initFuseFrontend_frontendArgs key args confFile)
      \<longrightarrow> \<not> DirIV (initFuseFrontend_frontendArgs key args confFile) \<and>
          \<not> EMENames (initFuseFrontend_frontendArgs key args confFile))"
  by (simp add: initFuseFrontend_frontendArgs_def Let_def split: option.split)

theorem initFuseFrontend_flag_normalization_witness:
  "EMENames (initFuseFrontend_frontendArgs [] example_args (Some example_conf)) \<and>
   DirIV (initFuseFrontend_frontendArgs [] example_args (Some example_conf)) \<and>
   PlaintextNames (initFuseFrontend_frontendArgs [] (example_args\<lparr>plaintextnames := True\<rparr>) None) \<and>
   \<not> DirIV (initFuseFrontend_frontendArgs [] (example_args\<lparr>plaintextnames := True\<rparr>) None) \<and>
   \<not> EMENames (initFuseFrontend_frontendArgs [] (example_args\<lparr>plaintextnames := True\<rparr>) None)"
proof -
  have e: "EMENames (initFuseFrontend_frontendArgs [] example_args (Some example_conf))"
    by (simp add: initFuseFrontend_frontendArgs_def Let_def example_args_def example_conf_def
          IsFeatureFlagSet_def FlagEMENames_def FlagPlaintextNames_def FlagDirIV_def FlagGCMIV128_def)
  have p: "PlaintextNames (initFuseFrontend_frontendArgs [] (example_args\<lparr>plaintextnames := True\<rparr>) None)"
    by (simp add: initFuseFrontend_frontendArgs_def Let_def example_args_def)
  from e initFuseFrontend_flag_normalization[of "[]" example_args "Some example_conf"]
  have "DirIV (initFuseFrontend_frontendArgs [] example_args (Some example_conf))" by simp
  moreover from p initFuseFrontend_flag_normalization[of "[]" "example_args\<lparr>plaintextnames := True\<rparr>" None]
  have "\<not> DirIV (initFuseFrontend_frontendArgs [] (example_args\<lparr>plaintextnames := True\<rparr>) None) \<and>
        \<not> EMENames (initFuseFrontend_frontendArgs [] (example_args\<lparr>plaintextnames := True\<rparr>) None)"
    by simp
  ultimately show ?thesis using e p by simp
qed

text \<open>
  Claim C5, as stated, has the process exit with code 9 whenever the passphrase
  fails to unlock the config file. With the config file in place and the password
  \<open>hunter3\<close> read, \<open>LoadConfFile\<close> fails and \<open>loadConfig\<close> exits with code 8.
\<close>

theorem loadConfig_wrong_password_counterexample:
  "os_Stat example_config_env (config example_args) = None \<and>
   readPassword example_config_env (extpass example_args) = Inr ''hunter3'' \<and>
   LoadConfFile example_config_env (config example_args) ''hunter3'' = Inl WrongPassword \<and>
   snd (loadConfig example_config_env example_args) = Exit 8 \<and>
   snd (loadConfig example_config_env example_args) \<noteq> Exit ERREXIT_PASSWORD"
  by (simp add: loadConfig_def example_config_env_def example_args_def
        ERREXIT_LOADCONF_def ERREXIT_PASSWORD_def)

text \<open>
  Claim C5, amended. Whenever the config file exists, a password has been read
  and \<open>LoadConfFile\<close> fails with it, \<open>loadConfig\<close> ends the process with
  \<open>ERREXIT_LOADCONF\<close>, which is 8.
\<close>

theorem loadConfig_wrong_password_exit_code:
  assumes "os_Stat env (config args) = None"
    and "readPassword env (extpass args) = Inr pw"
    and "LoadConfFile env (config args) pw = Inl err"
  shows "snd (loadConfig env args) = Exit ERREXIT_LOADCONF \<and> ERREXIT_LOADCONF = 8"
  using assms by (simp add: loadConfig_def Let_def ERREXIT_LOADCONF_def)

theorem loadConfig_wrong_password_exit_code_witness:
  "os_Stat example_config_env (config example_args) = None \<and>
   readPassword example_config_env (extpass example_args) = Inr ''hunter3'' \<and>
   LoadConfFile example_config_env (config example_args) ''hunter3'' = Inl WrongPassword \<and>
   snd (loadConfig example_config_env example_args) = Exit ERREXIT_LOADCONF \<and>
   ERREXIT_LOADCONF = 8"
proof -
  have a: "os_Stat example_config_env (config example_args) = None"
    by (simp add: example_config_env_def example_args_def)
  have b: "readPassword example_config_env (extpass example_args) = Inr ''hunter3''"
    by (simp add: example_config_env_def)
  have c: "LoadConfFile example_config_env (config example_args) ''hunter3'' = Inl WrongPassword"
    by (simp add: example_config_env_def)
  from a b c loadConfig_wrong_password_exit_code[OF a b c] show ?thesis by simp
qed

section \<open>Properties of \<open>ReadDirIV\<close>\<close>

lemmas path_defs = filepath_Dir_def filepath_Base_def filepath_Clean_def filepath_Join_def
  clean_step_def DirIVFilename_def

lemmas example_defs = example_be_def zero_dirIVCache_def example_os_def example_enc_def
  example_iv_def

lemma ReadDirIV_returns:
  assumes "ReadDirIV env tr d = (tr', Return (v, e))"
  shows "(e = None \<or> v \<noteq> []) \<Longrightarrow>
           ioutil_ReadFile env (filepath_Join [d, DirIVFilename]) = Inr v \<and> length v = 16 \<and> e = None"
    and "e \<noteq> None \<Longrightarrow> v = []"
  using assms unfolding ReadDirIV_def Let_def dirIVLen_def
  by (auto split: sum.splits if_splits)

lemma ReadDirIV_wrong_length:
  assumes "ioutil_ReadFile env (filepath_Join [d, DirIVFilename]) = Inr content"
    and "length content \<noteq> 16"
  shows "snd (ReadDirIV env tr d) = Return ([], Some (InvalidLength (int (length content))))"
  using assms unfolding ReadDirIV_def Let_def dirIVLen_def by simp

lemma ReadDirIV_trace:
  assumes "ReadDirIV env tr d = (tr', r)"
  shows "\<exists>evs. tr' = tr @ evs \<and>
           (\<forall>d' v e. EvReadDirIV d' v e \<in> set evs \<longrightarrow> d' = d \<and> r = Return (v, e))"
  using assms unfolding ReadDirIV_def Let_def
  by (auto split: sum.splits if_splits)

text \<open>
  Claim C6. \<open>ReadDirIV\<close> returns an IV (a nil error, or a non-nil slice) only when
  \<open>gocryptfs.diriv\<close> was read and holds exactly 16 bytes, and then the IV is the
  content of the file; when the file is read and holds any other number of
  bytes, \<open>ReadDirIV\<close> returns the nil slice with an error.
\<close>

theorem ReadDirIV_length_validation:
  "(\<forall>tr' v e. ReadDirIV env tr d = (tr', Return (v, e)) \<longrightarrow> (e = None \<or> v \<noteq> []) \<longrightarrow>
       ioutil_ReadFile env (filepath_Join [d, DirIVFilename]) = Inr v \<and> length v = 16 \<and> e = None) \<and>
   (\<forall>content. ioutil_ReadFile env (filepath_Join [d, DirIVFilename]) = Inr content \<longrightarrow>
       length content \<noteq> 16 \<longrightarrow>
       snd (ReadDirIV env tr d) = Return ([], Some (InvalidLength (int (length content)))))"
  using ReadDirIV_returns(1) ReadDirIV_wrong_length by blast

lemma ReadDirIV_example_root:
  "ReadDirIV example_os [] ''/c'' =
     ([EvDebug, EvReadFile ''/c/gocryptfs.diriv'', EvReadDirIV ''/c'' example_iv None],
      Return (example_iv, None))"
  by (simp add: ReadDirIV_def path_defs dirIVLen_def example_defs)

lemma ReadFile_example_Ea:
  "ioutil_ReadFile example_os (filepath_Join [''/c/Ea'', DirIVFilename]) = Inr [1, 2, 3]"
  by (simp add: path_defs example_defs)

theorem ReadDirIV_length_validation_witness:
  "ReadDirIV example_os [] ''/c'' =
     ([EvDebug, EvReadFile ''/c/gocryptfs.diriv'', EvReadDirIV ''/c'' example_iv None],
      Return (example_iv, None)) \<and>
   ioutil_ReadFile example_os (filepath_Join [''/c'', DirIVFilename]) = Inr example_iv \<and>
   length example_iv = 16 \<and>
   ioutil_ReadFile example_os (filepath_Join [''/c/Ea'', DirIVFilename]) = Inr [1, 2, 3] \<and>
   length [1, 2, 3 :: byte] \<noteq> 16 \<and>
   snd (ReadDirIV example_os [] ''/c/Ea'') = Return ([], Some (InvalidLength 3))"
proof -
  note T = ReadDirIV_length_validation[of example_os "[]"]
  have "ioutil_ReadFile example_os (filepath_Join [''/c'', DirIVFilename]) = Inr example_iv \<and>
        length example_iv = 16"
    using T[of "''/c''"] ReadDirIV_example_root by blast
  moreover have "snd (ReadDirIV example_os [] ''/c/Ea'') = Return ([], Some (InvalidLength 3))"
    using T[of "''/c/Ea''"] ReadFile_example_Ea by fastforce
  ultimately show ?thesis
    using ReadDirIV_example_root ReadFile_example_Ea by simp
qed

section \<open>Properties of \<open>EncryptPathDirIV\<close>\<close>

text \<open>
  Claim C8. For the root path \<open>""\<close> \<open>EncryptPathDirIV\<close> returns \<open>""\<close> and a nil
  error; the trace is the one it was given, so nothing was read, and the cache is
  the one it was given.
\<close>

theorem EncryptPathDirIV_root:
  "EncryptPathDirIV enc env be tr '''' rootDir = (be, tr, Return ('''', None))"
  by (simp add: EncryptPathDirIV_def)

lemma EncryptPathDirIV_walk_trace:
  "EncryptPathDirIV_walk enc env names wd encs iv0 tr = (tr', r) \<Longrightarrow>
   \<exists>evs. tr' = tr @ evs \<and>
     (\<forall>d v e. EvReadDirIV d v (Some e) \<in> set evs \<longrightarrow> (\<exists>x. r = Return (x, Some e)))"
proof (induction names arbitrary: wd encs iv0 tr)
  case Nil
  then show ?case by simp
next
  case (Cons plainName rest)
  obtain tr1 r1 where rd: "ReadDirIV env tr wd = (tr1, r1)" by (cases "ReadDirIV env tr wd")
  from ReadDirIV_trace[OF rd] obtain evs1 where
    tr1: "tr1 = tr @ evs1" and
    ev1: "\<And>d' v e. EvReadDirIV d' v e \<in> set evs1 \<Longrightarrow> r1 = Return (v, e)"
    by blast
  show ?case
  proof (cases r1)
    case (Panic p)
    with rd Cons.prems have "tr' = tr1" "r = Panic p" by simp_all
    moreover have "\<And>d v e. EvReadDirIV d v (Some e) \<notin> set evs1"
      using ev1 Panic by fastforce
    ultimately show ?thesis using tr1 by simp
  next
    case (Return ve)
    obtain iv1 eo where ve: "ve = (iv1, eo)" by (cases ve)
    show ?thesis
    proof (cases eo)
      case (Some err)
      with rd Cons.prems Return ve have "tr' = tr1" "r = Return ((encs, iv1), Some err)"
        by simp_all
      moreover have "\<And>d v e. EvReadDirIV d v (Some e) \<in> set evs1 \<Longrightarrow> e = err"
        using ev1 Return ve Some by fastforce
      ultimately show ?thesis using tr1 by auto
    next
      case None
      have no1: "\<And>d v e. EvReadDirIV d v (Some e) \<notin> set evs1"
        using ev1 Return ve None by fastforce
      show ?thesis
      proof (cases "enc plainName iv1")
        case (Inl p)
        with rd Cons.prems Return ve None have "tr' = tr1" "r = Panic p" by simp_all
        then show ?thesis using tr1 no1 by simp
      next
        case (Inr encryptedName)
        with rd Cons.prems Return ve None
        have "EncryptPathDirIV_walk enc env rest (filepath_Join [wd, encryptedName])
                (encs @ [encryptedName]) iv1 tr1 = (tr', r)"
          by simp
        from Cons.IH[OF this] obtain evs2 where
          "tr' = tr1 @ evs2"
          "\<forall>d v e. EvReadDirIV d v (Some e) \<in> set evs2 \<longrightarrow> (\<exists>x. r = Return (x, Some e))"
          by blast
        then have "tr' = tr @ (evs1 @ evs2) \<and>
          (\<forall>d v e. EvReadDirIV d v (Some e) \<in> set (evs1 @ evs2) \<longrightarrow> (\<exists>x. r = Return (x, Some e)))"
          using tr1 no1 by auto
        then show ?thesis by blast
      qed
    qed
  qed
qed

text \<open>
  Claim C9. If a \<open>ReadDirIV\<close> call made by \<open>EncryptPathDirIV\<close> returns an error,
  then \<open>EncryptPathDirIV\<close> returns the empty string with that error and
  leaves the cache as it was.
\<close>

theorem EncryptPathDirIV_failed_walk:
  assumes run: "EncryptPathDirIV enc env be tr plainPath rootDir = (be', tr', res)"
    and ev: "EvReadDirIV d v (Some e) \<in> set (drop (length tr) tr')"
  shows "res = Return ('''', Some e) \<and> be' = be"
proof (cases "plainPath = ''''")
  case True
  with run have "tr' = tr" by (simp add: EncryptPathDirIV_def)
  with ev show ?thesis by simp
next
  case ne: False
  obtain found iv0 cParentDir where
    lk: "lookup (DirIVCache be) (filepath_Dir plainPath) = (found, iv0, cParentDir)"
    by (cases "lookup (DirIVCache be) (filepath_Dir plainPath)")
  show ?thesis
  proof (cases found)
    case True
    with run ne lk have "tr' = tr"
      by (auto simp: EncryptPathDirIV_def Let_def split: sum.splits)
    with ev show ?thesis by simp
  next
    case False
    obtain tr1 r1 where
      w: "EncryptPathDirIV_walk enc env (strings_Split plainPath (CHR ''/'')) rootDir [] iv0 tr
            = (tr1, r1)"
      by (cases "EncryptPathDirIV_walk enc env (strings_Split plainPath (CHR ''/'')) rootDir [] iv0 tr")
    from run ne lk False w have tr': "tr' = tr1"
      by (auto simp: EncryptPathDirIV_def Let_def split: outcome.splits option.splits prod.splits)
    from EncryptPathDirIV_walk_trace[OF w] obtain evs where
      evs: "tr1 = tr @ evs" and
      err: "\<forall>d v e. EvReadDirIV d v (Some e) \<in> set evs \<longrightarrow> (\<exists>x. r1 = Return (x, Some e))"
      by blast
    have "EvReadDirIV d v (Some e) \<in> set evs" using ev tr' evs by simp
    with err obtain x where "r1 = Return (x, Some e)" by blast
    with run ne lk False w show ?thesis
      by (simp add: EncryptPathDirIV_def Let_def)
  qed
qed

lemma EncryptPathDirIV_example_fail:
  "EncryptPathDirIV example_enc example_os example_be [] ''a/b'' ''/c'' =
    (example_be,
     [EvDebug, EvReadFile ''/c/gocryptfs.diriv'', EvReadDirIV ''/c'' example_iv None,
      EvDebug, EvReadFile ''/c/Ea/gocryptfs.diriv'',
      EvReadDirIV ''/c/Ea'' [] (Some (InvalidLength 3))],
     Return ('''', Some (InvalidLength 3)))"
  by (simp add: EncryptPathDirIV_def path_defs ReadDirIV_def dirIVLen_def lookup_def
        example_defs Let_def)

theorem EncryptPathDirIV_failed_walk_witness:
  "EncryptPathDirIV example_enc example_os example_be [] ''a/b'' ''/c'' =
    (example_be,
     [EvDebug, EvReadFile ''/c/gocryptfs.diriv'', EvReadDirIV ''/c'' example_iv None,
      EvDebug, EvReadFile ''/c/Ea/gocryptfs.diriv'',
      EvReadDirIV ''/c/Ea'' [] (Some (InvalidLength 3))],
     Return ('''', Some (InvalidLength 3))) \<and>
   EvReadDirIV ''/c/Ea'' [] (Some (InvalidLength 3)) \<in> set (drop (length ([] :: event list))
     [EvDebug, EvReadFile ''/c/gocryptfs.diriv'', EvReadDirIV ''/c'' example_iv None,
      EvDebug, EvReadFile ''/c/Ea/gocryptfs.diriv'',
      EvReadDirIV ''/c/Ea'' [] (Some (InvalidLength 3))])"
proof -
  have ev: "EvReadDirIV ''/c/Ea'' [] (Some (InvalidLength 3)) \<in> set (drop (length ([] :: event list))
     [EvDebug, EvReadFile ''/c/gocryptfs.diriv'', EvReadDirIV ''/c'' example_iv None,
      EvDebug, EvReadFile ''/c/Ea/gocryptfs.diriv'',
      EvReadDirIV ''/c/Ea'' [] (Some (InvalidLength 3))])"
    by simp
  from EncryptPathDirIV_example_fail ev
    EncryptPathDirIV_failed_walk[OF EncryptPathDirIV_example_fail ev]
  show ?thesis by simp
qed

lemma strings_Split_no_sep: "sep \<notin> set s \<Longrightarrow> strings_Split s sep = [s]"
  by (induction s) auto

lemma filepath_Dir_no_slash: "CHR ''/'' \<notin> set s \<Longrightarrow> filepath_Dir s = ''.''"
proof -
  assume "CHR ''/'' \<notin> set s"
  then have "dropWhile (\<lambda>c. c \<noteq> CHR ''/'') (rev s) = []" by auto
  then show ?thesis by (simp add: filepath_Dir_def filepath_Clean_def)
qed

lemma filepath_Base_no_slash:
  assumes "CHR ''/'' \<notin> set s" and "s \<noteq> ''''"
  shows "filepath_Base s = s"
proof -
  from assms have d: "dropWhile (\<lambda>c. c = CHR ''/'') (rev s) = rev s"
    by (cases s rule: rev_cases) auto
  from assms(1) have t: "takeWhile (\<lambda>c. c \<noteq> CHR ''/'') (rev s) = rev s"
    by (simp add: takeWhile_eq_all_conv) metis
  show ?thesis
    unfolding filepath_Base_def Let_def d rev_rev_ident t using assms(2) by simp
qed

text \<open>
  Claim C3. The cache-hit branch is to return the cipher path that the walk
  returns. For a name directly under the root (no slash in it) it does not: the
  walk returns the encrypted name and stores \<open>"."\<close> as the translated parent
  (\<open>filepath.Dir\<close> of a path without a slash), and the hit that follows returns
  the encrypted name with \<open>"./"\<close> in front of it.
\<close>

theorem EncryptPathDirIV_hit_differs_at_top_level:
  assumes name: "plainName \<noteq> ''''" "CHR ''/'' \<notin> set plainName"
    and miss: "fst (lookup (DirIVCache be) ''.'') = False"
    and rd: "ReadDirIV env tr rootDir = (tr1, Return (iv1, None))"
    and enc: "enc plainName iv1 = Inr cName" "CHR ''/'' \<notin> set cName"
  shows "EncryptPathDirIV enc env be tr plainName rootDir
           = (be\<lparr>DirIVCache := store (DirIVCache be) ''.'' iv1 ''.''\<rparr>, tr1, Return (cName, None)) \<and>
         EncryptPathDirIV enc env (be\<lparr>DirIVCache := store (DirIVCache be) ''.'' iv1 ''.''\<rparr>) tr1
             plainName rootDir
           = (be\<lparr>DirIVCache := store (DirIVCache be) ''.'' iv1 ''.''\<rparr>, tr1,
              Return (''./'' @ cName, None)) \<and>
         ''./'' @ cName \<noteq> cName"
proof -
  let ?be1 = "be\<lparr>DirIVCache := store (DirIVCache be) ''.'' iv1 ''.''\<rparr>"
  have dir: "filepath_Dir plainName = ''.''" by (rule filepath_Dir_no_slash[OF name(2)])
  have base: "filepath_Base plainName = plainName"
    by (rule filepath_Base_no_slash[OF name(2) name(1)])
  have split: "strings_Split plainName (CHR ''/'') = [plainName]"
    by (rule strings_Split_no_sep[OF name(2)])
  have cdir: "filepath_Dir cName = ''.''" by (rule filepath_Dir_no_slash[OF enc(2)])
  obtain iv0 c0 where lk: "lookup (DirIVCache be) ''.'' = (False, iv0, c0)"
    using miss by (cases "lookup (DirIVCache be) ''.''") auto
  have walk: "EncryptPathDirIV_walk enc env [plainName] rootDir [] iv0 tr
                = (tr1, Return (([cName], iv1), None))"
    using rd enc(1) by simp
  have first: "EncryptPathDirIV enc env be tr plainName rootDir = (?be1, tr1, Return (cName, None))"
    using name(1)
    by (simp add: EncryptPathDirIV_def Let_def dir split lk walk cdir
          del: EncryptPathDirIV_walk.simps)
  have hit: "lookup (store (DirIVCache be) ''.'' iv1 ''.'') ''.'' = (True, iv1, ''.'')"
    by (simp add: lookup_def store_def)
  have second: "EncryptPathDirIV enc env ?be1 tr1 plainName rootDir
                  = (?be1, tr1, Return (''./'' @ cName, None))"
    using name(1) enc(1) by (simp add: EncryptPathDirIV_def Let_def dir base hit)
  from first second show ?thesis by simp
qed

lemma EncryptPathDirIV_example_miss: "fst (lookup (DirIVCache example_be) ''.'') = False"
  by (simp add: lookup_def example_defs)

lemma example_enc_a: "example_enc ''a'' example_iv = Inr ''Ea''"
  by (simp add: example_enc_def)

theorem EncryptPathDirIV_hit_differs_at_top_level_witness:
  "''a'' \<noteq> '''' \<and> CHR ''/'' \<notin> set ''a'' \<and>
   fst (lookup (DirIVCache example_be) ''.'') = False \<and>
   ReadDirIV example_os [] ''/c'' =
     ([EvDebug, EvReadFile ''/c/gocryptfs.diriv'', EvReadDirIV ''/c'' example_iv None],
      Return (example_iv, None)) \<and>
   example_enc ''a'' example_iv = Inr ''Ea'' \<and> CHR ''/'' \<notin> set ''Ea'' \<and>
   EncryptPathDirIV example_enc example_os example_be [] ''a'' ''/c''
     = (example_be\<lparr>DirIVCache := store (DirIVCache example_be) ''.'' example_iv ''.''\<rparr>,
        [EvDebug, EvReadFile ''/c/gocryptfs.diriv'', EvReadDirIV ''/c'' example_iv None],
        Return (''Ea'', None)) \<and>
   EncryptPathDirIV example_enc example_os
       (example_be\<lparr>DirIVCache := store (DirIVCache example_be) ''.'' example_iv ''.''\<rparr>)
       [EvDebug, EvReadFile ''/c/gocryptfs.diriv'', EvReadDirIV ''/c'' example_iv None] ''a'' ''/c''
     = (example_be\<lparr>DirIVCache := store (DirIVCache example_be) ''.'' example_iv ''.''\<rparr>,
        [EvDebug, EvReadFile ''/c/gocryptfs.diriv'', EvReadDirIV ''/c'' example_iv None],
        Return (''./Ea'', None))"
proof -
  have n1: "''a'' \<noteq> ''''" and n2: "CHR ''/'' \<notin> set ''a''" and c2: "CHR ''/'' \<notin> set ''Ea''"
    by simp_all
  from EncryptPathDirIV_hit_differs_at_top_level
         [where enc = example_enc and plainName = "''a''" and cName = "''Ea''",
          OF n1 n2 EncryptPathDirIV_example_miss ReadDirIV_example_root example_enc_a c2]
    n1 n2 c2 EncryptPathDirIV_example_miss ReadDirIV_example_root example_enc_a
  show ?thesis by simp
qed

subsection \<open>Paths with a parent directory\<close>

lemma strings_Join_Cons:
  "strings_Join (e # es) sep = e @ (if es = [] then [] else sep @ strings_Join es sep)"
  by (cases es) simp_all

lemma strings_Join_snoc:
  "es \<noteq> [] \<Longrightarrow> strings_Join (es @ [e]) sep = strings_Join es sep @ sep @ e"
  by (induction es sep rule: strings_Join.induct) simp_all

lemma strings_Split_append_sep:
  "sep \<notin> set x \<Longrightarrow> strings_Split (x @ sep # rest) sep = x # strings_Split rest sep"
  by (induction x) auto

lemma strings_Split_Join:
  "es \<noteq> [] \<Longrightarrow> (\<And>e. e \<in> set es \<Longrightarrow> CHR ''/'' \<notin> set e) \<Longrightarrow>
   strings_Split (strings_Join es ''/'') (CHR ''/'') = es"
proof (induction es "''/''" rule: strings_Join.induct)
  case 1
  then show ?case by simp
next
  case (2 x)
  then show ?case by (simp add: strings_Split_no_sep)
next
  case (3 x y ys)
  have "strings_Split (strings_Join (y # ys) ''/'') (CHR ''/'') = y # ys"
    using 3 by simp
  moreover have "CHR ''/'' \<notin> set x" using 3(3) by simp
  ultimately show ?case by (simp add: strings_Split_append_sep del: strings_Join.simps(3)
    add: strings_Join.simps(3)[of x y ys])
qed

lemma foldl_clean_step_plain:
  "(\<And>e. e \<in> set es \<Longrightarrow> plain_element e) \<Longrightarrow> foldl (clean_step rooted) out es = out @ es"
proof (induction es arbitrary: out)
  case Nil
  then show ?case by simp
next
  case (Cons e es)
  have "plain_element e" using Cons.prems by simp
  then have "clean_step rooted out e = out @ [e]"
    by (simp add: clean_step_def plain_element_def)
  then show ?case using Cons by simp
qed

lemma strings_Join_plain_head:
  assumes "es \<noteq> []" and "\<And>e. e \<in> set es \<Longrightarrow> plain_element e"
  shows "strings_Join es ''/'' \<noteq> ''''" and "hd (strings_Join es ''/'') \<noteq> CHR ''/''"
proof -
  from assms(1) obtain e es' where es: "es = e # es'" by (cases es) auto
  then have pe: "plain_element e" using assms(2) by simp
  then obtain c cs where e: "e = c # cs" "c \<noteq> CHR ''/''"
    by (cases e) (auto simp: plain_element_def)
  show "strings_Join es ''/'' \<noteq> ''''" unfolding es strings_Join_Cons using e by simp
  show "hd (strings_Join es ''/'') \<noteq> CHR ''/''" unfolding es strings_Join_Cons using e by simp
qed

lemma filepath_Clean_Join_plain:
  assumes "es \<noteq> []" and "\<And>e. e \<in> set es \<Longrightarrow> plain_element e"
  shows "filepath_Clean (strings_Join es ''/'' @ ''/'') = strings_Join es ''/''"
proof -
  let ?p = "strings_Join es ''/''"
  have sl: "\<And>e. e \<in> set (es @ ['''']) \<Longrightarrow> CHR ''/'' \<notin> set e"
    using assms(2) by (auto simp: plain_element_def)
  have "?p @ ''/'' = strings_Join (es @ ['''']) ''/''"
    using assms(1) by (simp add: strings_Join_snoc)
  then have sp: "strings_Split (?p @ ''/'') (CHR ''/'') = es @ ['''']"
    using strings_Split_Join[of "es @ ['''']"] sl by simp
  have fo: "foldl (clean_step False) [] (es @ ['''']) = es"
    using foldl_clean_step_plain[of es False "[]"] assms(2) by (simp add: clean_step_def)
  have hd: "hd (?p @ ''/'') \<noteq> CHR ''/''"
    using strings_Join_plain_head[OF assms] by simp
  show ?thesis
    unfolding filepath_Clean_def Let_def sp
    using hd fo strings_Join_plain_head(1)[OF assms] by simp
qed

lemma filepath_Dir_Join_plain:
  assumes "es \<noteq> []" and "\<And>x. x \<in> set es \<Longrightarrow> plain_element x" and "CHR ''/'' \<notin> set e"
  shows "filepath_Dir (strings_Join (es @ [e]) ''/'') = strings_Join es ''/''"
proof -
  let ?p = "strings_Join es ''/''"
  have "rev (strings_Join (es @ [e]) ''/'') = rev e @ CHR ''/'' # rev ?p"
    using assms(1) by (simp add: strings_Join_snoc)
  moreover have "dropWhile (\<lambda>c. c \<noteq> CHR ''/'') (rev e @ CHR ''/'' # rev ?p) = CHR ''/'' # rev ?p"
    using assms(3) by (subst dropWhile_append2) auto
  ultimately have "rev (dropWhile (\<lambda>c. c \<noteq> CHR ''/'') (rev (strings_Join (es @ [e]) ''/'')))
                   = ?p @ ''/''" by simp
  then show ?thesis
    unfolding filepath_Dir_def using filepath_Clean_Join_plain[OF assms(1,2)] by simp
qed

lemma filepath_Base_Join_plain:
  assumes "es \<noteq> []" and "e \<noteq> ''''" and "CHR ''/'' \<notin> set e"
  shows "filepath_Base (strings_Join (es @ [e]) ''/'') = e"
proof -
  let ?p = "strings_Join es ''/''"
  have r: "rev (strings_Join (es @ [e]) ''/'') = rev e @ CHR ''/'' # rev ?p"
    using assms(1) by (simp add: strings_Join_snoc)
  have ne: "strings_Join (es @ [e]) ''/'' \<noteq> ''''"
    using assms(1) by (simp add: strings_Join_snoc)
  from assms(2,3) have d: "dropWhile (\<lambda>c. c = CHR ''/'') (rev e @ CHR ''/'' # rev ?p)
                          = rev e @ CHR ''/'' # rev ?p"
    by (cases e rule: rev_cases) auto
  have t: "takeWhile (\<lambda>c. c \<noteq> CHR ''/'') (rev e @ CHR ''/'' # rev ?p) = rev e"
    using assms(3) by (subst takeWhile_append2) auto
  show ?thesis
    unfolding filepath_Base_def Let_def r d rev_rev_ident
    using ne assms(2) t by (simp add: r)
qed


lemma EncryptPathDirIV_walk_names:
  "EncryptPathDirIV_walk enc env (ns @ [n]) wd encs iv0 tr = (tr', Return ((es, iv1), None)) \<Longrightarrow>
   \<exists>es0 c. es = encs @ es0 @ [c] \<and> length es0 = length ns \<and> enc n iv1 = Inr c \<and>
     (\<forall>x \<in> set es0. \<exists>m \<in> set ns. \<exists>v. enc m v = Inr x)"
proof (induction ns arbitrary: wd encs iv0 tr)
  case Nil
  then show ?case
    by (auto split: prod.splits outcome.splits option.splits sum.splits)
next
  case (Cons m ns)
  from Cons.prems obtain tr1 iv2 c where
    rd: "ReadDirIV env tr wd = (tr1, Return (iv2, None))" and
    c: "enc m iv2 = Inr c" and
    rest: "EncryptPathDirIV_walk enc env (ns @ [n]) (filepath_Join [wd, c]) (encs @ [c]) iv2 tr1
             = (tr', Return ((es, iv1), None))"
    by (auto split: prod.splits outcome.splits option.splits sum.splits)
  from Cons.IH[OF rest] obtain es0 c' where
    "es = (encs @ [c]) @ es0 @ [c']" "length es0 = length ns" "enc n iv1 = Inr c'"
    "\<forall>x \<in> set es0. \<exists>m \<in> set ns. \<exists>v. enc m v = Inr x"
    by blast
  then have "es = encs @ (c # es0) @ [c'] \<and> length (c # es0) = length (m # ns) \<and>
             enc n iv1 = Inr c' \<and>
             (\<forall>x \<in> set (c # es0). \<exists>k \<in> set (m # ns). \<exists>v. enc k v = Inr x)"
    using c by auto
  then show ?case by blast
qed

text \<open>
  For a path with a parent directory, made of elements that are not empty, hold no
  slash and are neither \<open>.\<close> nor \<open>..\<close>, and an \<open>encryptName\<close> whose results are of
  that kind too, the hit that follows a successful walk returns what the walk
  returned.
\<close>

lemma EncryptPathDirIV_hit_equals_walk_below_top_level:
  assumes ns: "ns \<noteq> []" and plain: "\<And>e. e \<in> set (ns @ [n]) \<Longrightarrow> plain_element e"
    and encp: "\<And>m v x. m \<in> set (ns @ [n]) \<Longrightarrow> enc m v = Inr x \<Longrightarrow> plain_element x"
    and miss: "fst (lookup (DirIVCache be) (strings_Join ns ''/'')) = False"
    and first: "EncryptPathDirIV enc env be tr (strings_Join (ns @ [n]) ''/'') rootDir
                  = (be1, tr1, Return (cipherPath, None))"
  shows "EncryptPathDirIV enc env be1 tr1 (strings_Join (ns @ [n]) ''/'') rootDir
           = (be1, tr1, Return (cipherPath, None))"
proof -
  let ?pp = "strings_Join (ns @ [n]) ''/''"
  have pn: "plain_element n" and pns: "\<And>e. e \<in> set ns \<Longrightarrow> plain_element e"
    using plain by simp_all
  have n: "n \<noteq> ''''" "CHR ''/'' \<notin> set n" using pn by (simp_all add: plain_element_def)
  have ne: "?pp \<noteq> ''''" using ns by (simp add: strings_Join_snoc)
  have dir: "filepath_Dir ?pp = strings_Join ns ''/''"
    by (rule filepath_Dir_Join_plain[OF ns pns n(2)])
  have base: "filepath_Base ?pp = n"
    by (rule filepath_Base_Join_plain[OF ns n])
  have split: "strings_Split ?pp (CHR ''/'') = ns @ [n]"
    using strings_Split_Join[of "ns @ [n]"] plain by (simp add: plain_element_def)
  obtain iv0 c0 where lk: "lookup (DirIVCache be) (strings_Join ns ''/'') = (False, iv0, c0)"
    using miss by (cases "lookup (DirIVCache be) (strings_Join ns ''/'')") auto
  obtain tr2 r2 where w: "EncryptPathDirIV_walk enc env (ns @ [n]) rootDir [] iv0 tr = (tr2, r2)"
    by (cases "EncryptPathDirIV_walk enc env (ns @ [n]) rootDir [] iv0 tr")
  from first ne dir split lk w obtain es iv1 where
    r2: "r2 = Return ((es, iv1), None)" and
    res: "tr1 = tr2" "cipherPath = strings_Join es ''/''"
         "be1 = be\<lparr>DirIVCache := store (DirIVCache be) (strings_Join ns ''/'') iv1
                                     (filepath_Dir (strings_Join es ''/''))\<rparr>"
    by (auto simp: EncryptPathDirIV_def Let_def
             split: outcome.splits option.splits prod.splits)
  from EncryptPathDirIV_walk_names[OF w[unfolded r2]] obtain es0 c where
    es: "es = es0 @ [c]" and len: "length es0 = length ns" and c: "enc n iv1 = Inr c" and
    es0: "\<forall>x \<in> set es0. \<exists>m \<in> set ns. \<exists>v. enc m v = Inr x"
    by auto
  have es0ne: "es0 \<noteq> []" using len ns by auto
  have pes0: "\<And>x. x \<in> set es0 \<Longrightarrow> plain_element x"
  proof -
    fix x assume "x \<in> set es0"
    with es0 obtain m v where "m \<in> set ns" "enc m v = Inr x" by blast
    then show "plain_element x" using encp[of m v x] by simp
  qed
  have pc: "CHR ''/'' \<notin> set c" using encp[of n iv1 c] c by (simp add: plain_element_def)
  have cdir: "filepath_Dir (strings_Join es ''/'') = strings_Join es0 ''/''"
    unfolding es by (rule filepath_Dir_Join_plain[OF es0ne pes0 pc])
  have hit: "lookup (store (DirIVCache be) (strings_Join ns ''/'') iv1 (strings_Join es0 ''/''))
               (strings_Join ns ''/'') = (True, iv1, strings_Join es0 ''/'')"
    by (simp add: lookup_def store_def)
  have "EncryptPathDirIV enc env be1 tr1 ?pp rootDir
          = (be1, tr1, Return (strings_Join es0 ''/'' @ ''/'' @ c, None))"
    using ne c by (simp add: EncryptPathDirIV_def Let_def dir base res(3) cdir hit)
  moreover have "strings_Join es0 ''/'' @ ''/'' @ c = cipherPath"
    unfolding res(2) es using es0ne by (simp add: strings_Join_snoc)
  ultimately show ?thesis by simp
qed

lemma EncryptPathDirIV_example_below_top_level:
  "EncryptPathDirIV example_enc example_os example_be [] ''d/f'' ''/c''
     = (example_be\<lparr>DirIVCache := store (DirIVCache example_be) ''d'' example_iv ''Ed''\<rparr>,
        [EvDebug, EvReadFile ''/c/gocryptfs.diriv'', EvReadDirIV ''/c'' example_iv None,
         EvDebug, EvReadFile ''/c/Ed/gocryptfs.diriv'', EvReadDirIV ''/c/Ed'' example_iv None],
        Return (''Ed/Ef'', None))"
  "EncryptPathDirIV example_enc example_os
       (example_be\<lparr>DirIVCache := store (DirIVCache example_be) ''d'' example_iv ''Ed''\<rparr>)
       tr ''d/f'' ''/c''
     = (example_be\<lparr>DirIVCache := store (DirIVCache example_be) ''d'' example_iv ''Ed''\<rparr>,
        tr, Return (''Ed/Ef'', None))"
  by (simp_all add: EncryptPathDirIV_def path_defs ReadDirIV_def dirIVLen_def lookup_def
        store_def example_defs Let_def)

end
